theory Spec2Isabelle
  imports Complex_Main "HOL-Library.Word"
begin

section \<open>The benchmark program \<open>src/main.cpp\<close>\<close>

text \<open>
  The program times an elementwise transform of a \<open>std::vector<double>\<close> under five
  strategies. The embedding follows the source function by function.

  \<^item> A \<open>double\<close> that the program only moves around is an element of an arbitrary type
    \<open>'a\<close> with a zero (the value a \<open>std::vector<double>(N)\<close> is filled with); the
    operations \<open>fast_op\<close> and \<open>slow_op\<close> and the elapsed times are idealised as \<open>real\<close>.
  \<^item> \<open>size_t\<close> values are \<open>nat\<close>, the \<open>int\<close> values \<open>K\<close> and \<open>i\<close> are \<open>int\<close>: the
    loop counter runs from \<open>0\<close> to \<open>K\<close>, so none of the arithmetic of the source wraps,
    and the conversions from \<open>int\<close> to \<open>size_t\<close> are applied to non-negative values only.
  \<^item> An access outside a vector is undefined behaviour in C++; it is the result
    \<open>None\<close> here, so that a theorem giving \<open>Some\<close> also says that no such access happens.
  \<^item> What the program takes from its environment is an explicit parameter: the
    readings of the clock, and the order in which concurrently running workers
    reach their element assignments.
\<close>

subsection \<open>Environment: clock and scheduler\<close>

text \<open>
  \<open>clock e n\<close> is the \<open>n\<close>-th reading of \<open>std::chrono::high_resolution_clock::now()\<close>
  in ticks of one nanosecond (a signed 64-bit count, as in libstdc++); the state that is
  threaded through the measuring functions is the number of readings taken so far.
  \<open>sched e n\<close> is the list of choices the scheduler makes for the parallel region that
  is entered after \<open>n\<close> readings.
\<close>

record env =
  clock :: "nat \<Rightarrow> 64 word"
  sched :: "nat \<Rightarrow> nat list"

definition now :: "env \<Rightarrow> nat \<Rightarrow> 64 word \<times> nat" where
  "now e n = (clock e n, Suc n)"

text \<open>
  \<open>std::chrono::duration<double>(stop - start).count()\<close>: the tick difference in seconds.
  The difference of the two 64-bit tick counts is taken as the machine takes it, modulo
  \<open>2 ^ 64\<close>.
\<close>

definition duration_seconds :: "64 word \<Rightarrow> 64 word \<Rightarrow> real" where
  "duration_seconds start stop = real_of_int (sint (stop - start)) / 1000000000"

subsection \<open>\<open>std::transform\<close>\<close>

text \<open>
  \<open>std::transform(first, last, d_first, op)\<close> performs, for every \<open>j\<close> with
  \<open>first + j < last\<close>, the assignment \<open>*(d_first + j) = op(*(first + j))\<close>. An
  assignment is the pair of the index read in the source vector and the index written in
  the destination vector. In this program the source is always the caller's vector
  \<open>data\<close> and the destination the local vector \<open>result\<close>; the two vectors form the store
  the assignments act on (\<open>data_vec\<close> and \<open>result_vec\<close>).
\<close>

definition transform_writes :: "nat \<Rightarrow> nat \<Rightarrow> nat \<Rightarrow> (nat \<times> nat) list" where
  "transform_writes first last' d_first =
     map (\<lambda>j. (first + j, d_first + j)) [0..<last' - first]"

record 'a store =
  data_vec :: "'a list"
  result_vec :: "'a list"

fun run_writes :: "('a \<Rightarrow> 'a) \<Rightarrow> (nat \<times> nat) list \<Rightarrow> 'a store \<Rightarrow> 'a store option" where
  "run_writes op [] st = Some st"
| "run_writes op ((s, d) # ws) st =
     (if s < length (data_vec st) \<and> d < length (result_vec st)
      then run_writes op ws (st\<lparr>result_vec := (result_vec st)[d := op (data_vec st ! s)]\<rparr>)
      else None)"

text \<open>
  The execution policies of \<open><execution>\<close>. Under \<open>seq\<close> the assignments are made by the
  calling thread in order; under \<open>par\<close> and \<open>par_unseq\<close> the library may make them in any
  order, which the scheduler's choices select: each choice picks one of the assignments
  still pending, and when the choices run out the rest follow in order.
\<close>

datatype execution_policy = seq | par | par_unseq

fun pick_order :: "nat list \<Rightarrow> 'w list \<Rightarrow> 'w list" where
  "pick_order [] ws = ws"
| "pick_order (c # cs) ws =
     (if ws = [] then []
      else let k = c mod length ws
           in ws ! k # pick_order cs (take k ws @ drop (Suc k) ws))"

fun policy_order :: "execution_policy \<Rightarrow> nat list \<Rightarrow> 'w list \<Rightarrow> 'w list" where
  "policy_order seq cs ws = ws"
| "policy_order par cs ws = pick_order cs ws"
| "policy_order par_unseq cs ws = pick_order cs ws"

text \<open>
  Threads that each run a list of assignments in order, interleaved: each choice picks
  one of the threads that still have work, which makes its next assignment; when the
  choices run out the remaining work is done thread by thread.
\<close>

fun interleave :: "nat list \<Rightarrow> 'w list list \<Rightarrow> 'w list" where
  "interleave [] qs = concat qs"
| "interleave (c # cs) qs =
     (case filter (\<lambda>q. q \<noteq> []) qs of
        [] \<Rightarrow> []
      | q # qs' \<Rightarrow>
          (let live = q # qs'; k = c mod length live
           in hd (live ! k) # interleave cs (live[k := tl (live ! k)])))"

subsection \<open>The timing harness\<close>

text \<open>
  The C++ functions return the elapsed time only. The model returns with it the store at
  the moment of return: the contents of the local vector \<open>result\<close> and of the vector
  \<open>data\<close> the caller passed by reference.
\<close>

record 'a trial =
  elapsed :: real
  final :: "'a store"

definition measure_transform ::
    "env \<Rightarrow> 'a::zero list \<Rightarrow> ('a \<Rightarrow> 'a) \<Rightarrow> nat \<Rightarrow> ('a trial \<times> nat) option" where
  "measure_transform e data op n =
     (let st0 = \<lparr>data_vec = data, result_vec = replicate (length data) 0\<rparr>;
          (start, n1) = now e n
      in case run_writes op (transform_writes 0 (length data) 0) st0 of
           None \<Rightarrow> None
         | Some st1 \<Rightarrow>
             (let (stop, n2) = now e n1
              in Some (\<lparr>elapsed = duration_seconds start stop, final = st1\<rparr>, n2)))"

definition measure_policy_transform ::
    "env \<Rightarrow> 'a::zero list \<Rightarrow> ('a \<Rightarrow> 'a) \<Rightarrow> execution_policy \<Rightarrow> nat \<Rightarrow> ('a trial \<times> nat) option" where
  "measure_policy_transform e data op policy n =
     (let st0 = \<lparr>data_vec = data, result_vec = replicate (length data) 0\<rparr>;
          (start, n1) = now e n
      in case run_writes op
                (policy_order policy (sched e n1) (transform_writes 0 (length data) 0)) st0 of
           None \<Rightarrow> None
         | Some st1 \<Rightarrow>
             (let (stop, n2) = now e n1
              in Some (\<lparr>elapsed = duration_seconds start stop, final = st1\<rparr>, n2)))"

subsection \<open>The custom fixed-thread split\<close>

text \<open>
  A spawned thread is the pair \<open>(current_start, current_end)\<close> its closure captured by
  value. The loop \<open>for (int i = 0; i < K; ++i)\<close> appends one thread per iteration. In
  C++ a thread starts to run when it is constructed, while the loop goes on; the loop
  changes only \<open>current_start\<close> and the vector of threads, which no thread body reads, so
  the model lets the threads make their assignments, interleaved, once the loop is over.
  The model returns the vector of threads with the trial.
\<close>

function spawn_loop ::
    "int \<Rightarrow> int \<Rightarrow> nat \<Rightarrow> nat \<Rightarrow> nat \<Rightarrow> (nat \<times> nat) list \<Rightarrow> (nat \<times> nat) list" where
  "spawn_loop i K chunk_size remainder current_start threads =
     (if i < K
      then (let current_end = current_start + chunk_size + (if nat i < remainder then 1 else 0)
            in spawn_loop (i + 1) K chunk_size remainder current_end
                 (threads @ [(current_start, current_end)]))
      else threads)"
  by pat_completeness auto
termination
  by (relation "measure (\<lambda>(i, K, _). nat (K - i))") auto

declare spawn_loop.simps [simp del]

text \<open>The body of a thread: \<open>std::transform\<close> over its chunk, into the same positions.\<close>

definition thread_writes :: "nat \<times> nat \<Rightarrow> (nat \<times> nat) list" where
  "thread_writes th = transform_writes (fst th) (snd th) (fst th)"

record 'a custom_trial = "'a trial" +
  threads :: "(nat \<times> nat) list"

definition measure_custom_parallel_transform ::
    "env \<Rightarrow> 'a::zero list \<Rightarrow> ('a \<Rightarrow> 'a) \<Rightarrow> int \<Rightarrow> nat \<Rightarrow> ('a custom_trial \<times> nat) option" where
  "measure_custom_parallel_transform e data op K0 n =
     (let K = (if K0 \<le> 0 then 1 else K0);
          N = length data;
          st0 = \<lparr>data_vec = data, result_vec = replicate N 0\<rparr>;
          (start, n1) = now e n;
          chunk_size = N div nat K;
          remainder = N mod nat K;
          ths = spawn_loop 0 K chunk_size remainder 0 []
      in case run_writes op (interleave (sched e n1) (map thread_writes ths)) st0 of
           None \<Rightarrow> None
         | Some st1 \<Rightarrow>
             (let (stop, n2) = now e n1
              in Some (\<lparr>elapsed = duration_seconds start stop, final = st1, threads = ths\<rparr>, n2)))"

subsection \<open>The data generator\<close>

text \<open>
  \<open>std::mt19937\<close> and \<open>std::uniform_real_distribution\<close> belong to the standard library. The
  model takes them as a parameter: \<open>mt19937 lib seed\<close> is the state of an engine
  constructed from \<open>seed\<close>, and \<open>uniform_real_distribution lib a b g\<close> is the value that
  \<open>dis(gen)\<close> returns for a distribution over \<open>[a, b)\<close> on an engine in state \<open>g\<close>,
  with the engine's next state. Both objects are locals of \<open>generate_data\<close>, constructed
  anew by every call.
\<close>

record ('g, 'a) random_library =
  mt19937 :: "int \<Rightarrow> 'g"
  uniform_real_distribution :: "'a \<Rightarrow> 'a \<Rightarrow> 'g \<Rightarrow> 'a \<times> 'g"

text \<open>\<open>for (auto& x : data) x = dis(gen);\<close> over the positions of \<open>data\<close>.\<close>

fun fill_loop :: "('g \<Rightarrow> 'a \<times> 'g) \<Rightarrow> nat list \<Rightarrow> 'a list \<times> 'g \<Rightarrow> 'a list \<times> 'g" where
  "fill_loop dis [] (data, gen) = (data, gen)"
| "fill_loop dis (i # is) (data, gen) =
     (let (x, gen') = dis gen in fill_loop dis is (data[i := x], gen'))"

definition generate_data ::
    "('g, 'a::zero) random_library \<Rightarrow> nat \<Rightarrow> int \<Rightarrow> 'a \<Rightarrow> 'a \<Rightarrow> 'a list" where
  "generate_data lib N seed dis_start dis_end =
     (let data = replicate N 0;
          gen = mt19937 lib seed;
          dis = uniform_real_distribution lib dis_start dis_end
      in fst (fill_loop dis [0..<length data] (data, gen)))"

subsection \<open>The operations\<close>

definition fast_op :: "real \<Rightarrow> real" where
  "fast_op x = x + 1"

text \<open>
  The loop of \<open>slow_op\<close> carries, besides \<open>i\<close> and \<open>s\<close>, a count of the executions of
  its body \<open>s += std::sin(static_cast<double>(i))\<close>; \<open>slow_op_run\<close> returns the count with
  the value.
\<close>

function slow_op_loop :: "int \<Rightarrow> real \<Rightarrow> nat \<Rightarrow> real \<times> nat" where
  "slow_op_loop i s w =
     (if i < 100 then slow_op_loop (i + 1) (s + sin (real_of_int i)) (Suc w) else (s, w))"
  by pat_completeness auto
termination
  by (relation "measure (\<lambda>(i, _). nat (100 - i))") auto

declare slow_op_loop.simps [simp del]

definition slow_op_run :: "real \<Rightarrow> real \<times> nat" where
  "slow_op_run x = (let (s, w) = slow_op_loop 0 0 0 in (s + x, w))"

definition slow_op :: "real \<Rightarrow> real" where
  "slow_op x = fst (slow_op_run x)"

subsection \<open>The reporting layer\<close>

text \<open>
  What \<open>measure_and_print_custom_parallel\<close> writes to \<open>std::cout\<close>, line by line: the
  header of the table, a row per candidate, the line \<open>Best K: \<close> and the line with the
  relation to the processor threads. The quotient on that line is \<open>None\<close> when
  \<open>num_cores\<close> is zero, where the C++ division gives an infinity or a NaN.
\<close>

datatype line = Header | Row int real | Best_K int | Relation int nat "real option"

text \<open>\<open>std::numeric_limits<double>::max()\<close>\<close>

definition DBL_MAX :: real where
  "DBL_MAX = (2 - 1 / 2 ^ 52) * 2 ^ 1023"

record sweep_state =
  readings :: nat
  min_time :: real
  best_K :: int
  printed :: "line list"

fun sweep_loop ::
    "env \<Rightarrow> 'a::zero list \<Rightarrow> ('a \<Rightarrow> 'a) \<Rightarrow> int list \<Rightarrow> sweep_state \<Rightarrow> sweep_state option" where
  "sweep_loop e data op [] st = Some st"
| "sweep_loop e data op (K # Ks) st =
     (case measure_custom_parallel_transform e data op K (readings st) of
        None \<Rightarrow> None
      | Some (tr, n') \<Rightarrow>
          (let time_custom = elapsed tr;
               st1 = st\<lparr>readings := n', printed := printed st @ [Row K time_custom]\<rparr>;
               st2 = (if time_custom < min_time st1
                      then st1\<lparr>min_time := time_custom, best_K := K\<rparr>
                      else st1)
           in sweep_loop e data op Ks st2))"

definition measure_and_print_custom_parallel ::
    "env \<Rightarrow> 'a::zero list \<Rightarrow> ('a \<Rightarrow> 'a) \<Rightarrow> int list \<Rightarrow> nat \<Rightarrow> nat \<Rightarrow> (line list \<times> nat) option" where
  "measure_and_print_custom_parallel e data op K_values num_cores n =
     (case sweep_loop e data op K_values
             \<lparr>readings = n, min_time = DBL_MAX, best_K = 1, printed = [Header]\<rparr> of
        None \<Rightarrow> None
      | Some st \<Rightarrow>
          Some (printed st @
                  [Best_K (best_K st),
                   Relation (best_K st) num_cores
                     (if num_cores = 0 then None
                      else Some (real_of_int (best_K st) / real num_cores))],
                readings st))"

section \<open>Notions used in the statements\<close>

text \<open>The thread count after \<open>if (K <= 0) K = 1;\<close>.\<close>

definition coerce_K :: "int \<Rightarrow> int" where
  "coerce_K K = (if K \<le> 0 then 1 else K)"

text \<open>
  The bounds of chunk \<open>j\<close> in closed form, for chunk size \<open>c\<close> and remainder \<open>r\<close>: the
  chunks before it hold \<open>j * c\<close> elements and \<open>min j r\<close> extra ones.
\<close>

definition chunk_bounds :: "nat \<Rightarrow> nat \<Rightarrow> nat \<Rightarrow> nat \<times> nat" where
  "chunk_bounds c r j = (j * c + min j r, Suc j * c + min (Suc j) r)"

definition chunk_sizes :: "(nat \<times> nat) list \<Rightarrow> nat list" where
  "chunk_sizes ths = map (\<lambda>th. snd th - fst th) ths"

text \<open>
  The time measured by the \<open>j\<close>-th trial of a sweep that starts after \<open>n\<close> clock readings:
  every trial reads the clock twice.
\<close>

definition trial_time :: "env \<Rightarrow> nat \<Rightarrow> nat \<Rightarrow> real" where
  "trial_time e n j = duration_seconds (clock e (n + 2 * j)) (clock e (n + 2 * j + 1))"

definition trial_times :: "env \<Rightarrow> nat \<Rightarrow> nat \<Rightarrow> real list" where
  "trial_times e n m = map (trial_time e n) [0..<m]"

text \<open>The running minimum of the sweep, on the list of candidates with their times.\<close>

fun track_min :: "real \<Rightarrow> int \<Rightarrow> (int \<times> real) list \<Rightarrow> real \<times> int" where
  "track_min m b [] = (m, b)"
| "track_min m b ((K, t) # kts) = (if t < m then track_min t K kts else track_min m b kts)"

text \<open>
  The values a generator produces: the first \<open>k\<close> results of calling \<open>dis\<close> on an engine
  that starts in state \<open>gen\<close>.
\<close>

fun draws :: "('g \<Rightarrow> 'a \<times> 'g) \<Rightarrow> nat \<Rightarrow> 'g \<Rightarrow> 'a list" where
  "draws dis 0 gen = []"
| "draws dis (Suc k) gen = (let (x, gen') = dis gen in x # draws dis k gen')"

section \<open>Concrete environments for the sample runs\<close>

text \<open>
  An environment whose clock reads 0, 50, 100, 120, 200, 230 and then 300 nanoseconds,
  and whose scheduler always makes the choices 2, 0, 1, 1.
\<close>

definition demo_env :: env where
  "demo_env = \<lparr>clock = (\<lambda>n. if n < 6 then [0, 50, 100, 120, 200, 230] ! n else 300),
                sched = (\<lambda>n. [2, 0, 1, 1])\<rparr>"

text \<open>An environment in which the second and the third trial of a sweep take equally long.\<close>

definition tie_env :: env where
  "tie_env = \<lparr>clock = (\<lambda>n. if n < 6 then [0, 50, 100, 120, 200, 220] ! n else 300),
               sched = (\<lambda>n. [1, 0])\<rparr>"

text \<open>An environment whose clock reads 5 nanoseconds first and 3 nanoseconds from then on.\<close>

definition stepped_back_env :: env where
  "stepped_back_env = \<lparr>clock = (\<lambda>n. if n = 0 then 5 else 3), sched = (\<lambda>n. [])\<rparr>"

text \<open>A small congruential generator in the place of the standard library's engine.\<close>

definition lcg_library :: "(nat, real) random_library" where
  "lcg_library =
     \<lparr>mt19937 = (\<lambda>seed. nat (seed mod 16)),
      uniform_real_distribution = (\<lambda>a b g. (a + (b - a) * real g / 16, (5 * g + 3) mod 16))\<rparr>"

section \<open>Element assignments\<close>

lemma run_writes_diag:
  assumes "\<forall>w \<in> set ws. fst w = snd w \<and> snd w < length (data_vec st)"
    and "length (result_vec st) = length (data_vec st)"
  shows "run_writes op ws st =
           Some (st\<lparr>result_vec :=
                   map (\<lambda>i. if i \<in> snd ` set ws then op (data_vec st ! i) else result_vec st ! i)
                     [0..<length (data_vec st)]\<rparr>)"
  using assms
proof (induction ws arbitrary: st)
  case Nil
  have "map ((!) (result_vec st)) [0..<length (data_vec st)] = result_vec st"
    using Nil.prems(2) by (auto intro: nth_equalityI)
  then show ?case by simp
next
  case (Cons w ws)
  obtain s d where w: "w = (s, d)" by (cases w)
  from Cons.prems w have sd: "s = d" "d < length (data_vec st)" by auto
  let ?st = "st\<lparr>result_vec := (result_vec st)[d := op (data_vec st ! s)]\<rparr>"
  have "run_writes op ws ?st =
          Some (?st\<lparr>result_vec :=
                  map (\<lambda>i. if i \<in> snd ` set ws then op (data_vec ?st ! i) else result_vec ?st ! i)
                    [0..<length (data_vec ?st)]\<rparr>)"
    using Cons.prems by (intro Cons.IH) auto
  moreover have "map (\<lambda>i. if i \<in> snd ` set ws then op (data_vec ?st ! i) else result_vec ?st ! i)
                   [0..<length (data_vec ?st)] =
                 map (\<lambda>i. if i \<in> snd ` set (w # ws) then op (data_vec st ! i) else result_vec st ! i)
                   [0..<length (data_vec st)]"
    using sd Cons.prems(2) by (auto simp: w nth_list_update)
  ultimately show ?case using sd Cons.prems by (simp add: w)
qed

lemma run_writes_cover:
  assumes "set ws = (\<lambda>i. (i, i)) ` {0..<length data}"
  shows "run_writes op ws \<lparr>data_vec = data, result_vec = replicate (length data) z\<rparr> =
           Some \<lparr>data_vec = data, result_vec = map op data\<rparr>"
proof -
  let ?st = "\<lparr>data_vec = data, result_vec = replicate (length data) z\<rparr>"
  have pre: "\<forall>w \<in> set ws. fst w = snd w \<and> snd w < length (data_vec ?st)"
    "length (result_vec ?st) = length (data_vec ?st)"
    using assms by auto
  have "map (\<lambda>i. if i \<in> snd ` set ws then op (data_vec ?st ! i) else result_vec ?st ! i)
          [0..<length (data_vec ?st)] = map op data"
    unfolding assms by (intro nth_equalityI) (auto simp: image_image)
  then show ?thesis
    unfolding run_writes_diag [OF pre] by simp
qed

section \<open>Schedules, chunks and the result of a trial\<close>

lemma set_pick_order: "set (pick_order cs ws) = set ws"
proof (induction cs arbitrary: ws)
  case Nil
  then show ?case by simp
next
  case (Cons c cs)
  show ?case
  proof (cases "ws = []")
    case True
    then show ?thesis by simp
  next
    case False
    define k where "k = c mod length ws"
    have k: "k < length ws" using False by (simp add: k_def)
    have "set ws = set (take k ws @ ws ! k # drop (Suc k) ws)"
      using id_take_nth_drop [OF k] by simp
    then show ?thesis using False Cons.IH [of "take k ws @ drop (Suc k) ws"]
      by (auto simp: k_def [symmetric] Let_def)
  qed
qed

lemma set_interleave: "set (interleave cs qs) = set (concat qs)"
proof (induction cs arbitrary: qs)
  case Nil
  then show ?case by simp
next
  case (Cons c cs)
  note IH = Cons.IH
  have flt: "set (concat (filter (\<lambda>q. q \<noteq> []) qs)) = set (concat qs)" by auto
  show ?case
  proof (cases "filter (\<lambda>q. q \<noteq> []) qs")
    case Nil
    with flt show ?thesis by simp
  next
    case (Cons q qs')
    define live where "live = q # qs'"
    define k where "k = c mod length live"
    have live: "filter (\<lambda>q. q \<noteq> []) qs = live" by (simp add: Cons live_def)
    have k: "k < length live" by (simp add: k_def live_def)
    have "live ! k \<in> set (filter (\<lambda>q. q \<noteq> []) qs)"
      unfolding live using k by simp
    then have ne: "live ! k \<noteq> []" by simp
    have l: "concat live = concat (take k live @ live ! k # drop (Suc k) live)"
      by (rule arg_cong [where f = concat], rule id_take_nth_drop [OF k])
    have u: "live[k := tl (live ! k)] = take k live @ tl (live ! k) # drop (Suc k) live"
      using upd_conv_take_nth_drop [OF k] .
    have "set (tl (live ! k)) \<union> {hd (live ! k)} = set (live ! k)"
      using ne by (cases "live ! k") auto
    then have *: "insert (hd (live ! k)) (set (concat (live[k := tl (live ! k)]))) = set (concat live)"
      unfolding l u by auto
    have "interleave (c # cs) qs = hd (live ! k) # interleave cs (live[k := tl (live ! k)])"
      by (simp add: Cons live_def k_def Let_def)
    then have "set (interleave (c # cs) qs) = insert (hd (live ! k)) (set (concat (live[k := tl (live ! k)])))"
      by (simp add: IH)
    also have "\<dots> = set (concat live)" by (rule *)
    also have "\<dots> = set (concat qs)" using flt unfolding live .
    finally show ?thesis .
  qed
qed

lemma spawn_loop_closed:
  "0 \<le> i \<Longrightarrow> i \<le> K \<Longrightarrow> cur = nat i * c + min (nat i) r \<Longrightarrow>
   spawn_loop i K c r cur ths = ths @ map (chunk_bounds c r) [nat i..<nat K]"
proof (induction i K c r cur ths rule: spawn_loop.induct)
  case (1 i K c r cur ths)
  show ?case
  proof (cases "i < K")
    case False
    with "1.prems" have "i = K" by simp
    then show ?thesis by (subst spawn_loop.simps) simp
  next
    case True
    define nxt where "nxt = cur + c + (if nat i < r then 1 else 0)"
    have suc: "nat (i + 1) = Suc (nat i)" using "1.prems"(1) by simp
    have nxt: "nxt = nat (i + 1) * c + min (nat (i + 1)) r"
      unfolding suc nxt_def "1.prems"(3) by (simp add: min_def)
    have ih: "spawn_loop (i + 1) K c r nxt (ths @ [(cur, nxt)]) =
              (ths @ [(cur, nxt)]) @ map (chunk_bounds c r) [nat (i + 1)..<nat K]"
      using True "1.prems"(1) nxt
      by (intro "1.IH" [OF True nxt_def]) simp_all
    have lt: "nat i < nat K" using True "1.prems"(1) by simp
    have cb: "chunk_bounds c r (nat i) = (cur, nxt)"
      unfolding chunk_bounds_def nxt "1.prems"(3) suc ..
    have "spawn_loop i K c r cur ths = spawn_loop (i + 1) K c r nxt (ths @ [(cur, nxt)])"
      using True by (subst spawn_loop.simps) (simp add: nxt_def Let_def)
    also note ih
    finally show ?thesis
      unfolding suc by (simp add: upt_conv_Cons [OF lt] cb)
  qed
qed

lemma chunk_union:
  fixes f :: "nat \<Rightarrow> nat"
  assumes "\<And>j. f j \<le> f (Suc j)"
  shows "(\<Union>j<k. {f j..<f (Suc j)}) = {f 0..<f k}"
proof (induction k)
  case 0
  show ?case by simp
next
  case (Suc k)
  have "f 0 \<le> f k" by (induction k) (auto intro: order_trans assms)
  then have "{f 0..<f k} \<union> {f k..<f (Suc k)} = {f 0..<f (Suc k)}"
    using assms [of k] by auto
  then show ?case by (simp add: lessThan_Suc Suc.IH Un_commute)
qed

lemma shifted_diag_image:
  "(\<lambda>j. (a + j, a + j)) ` {0..<b - a} = (\<lambda>i. (i, i)) ` {a..<b::nat}"
proof (intro equalityI subsetI)
  fix p assume "p \<in> (\<lambda>j. (a + j, a + j)) ` {0..<b - a}"
  then obtain j where "j < b - a" "p = (a + j, a + j)" by auto
  then show "p \<in> (\<lambda>i. (i, i)) ` {a..<b}" by auto
next
  fix p assume "p \<in> (\<lambda>i. (i, i)) ` {a..<b}"
  then obtain i where i: "a \<le> i" "i < b" "p = (i, i)" by auto
  then have "p = (a + (i - a), a + (i - a))" "i - a \<in> {0..<b - a}" by auto
  then show "p \<in> (\<lambda>j. (a + j, a + j)) ` {0..<b - a}" by (rule image_eqI)
qed

lemma thread_writes_chunk:
  "set (thread_writes (chunk_bounds c r j)) =
     (\<lambda>i. (i, i)) ` {j * c + min j r..<Suc j * c + min (Suc j) r}"
  using shifted_diag_image [of "j * c + min j r" "Suc j * c + min (Suc j) r"]
  by (simp add: thread_writes_def transform_writes_def chunk_bounds_def)

lemma set_custom_writes:
  assumes "0 < k"
  shows "set (concat (map thread_writes (map (chunk_bounds (N div k) (N mod k)) [0..<k]))) =
           (\<lambda>i. (i, i)) ` {0..<N}"
proof -
  define f where "f j = j * (N div k) + min j (N mod k)" for j
  have mono: "f j \<le> f (Suc j)" for j by (simp add: f_def min_def)
  have "N mod k < k" using assms by simp
  then have fk: "f k = N" by (simp add: f_def min_def mult.commute)
  have "set (concat (map thread_writes (map (chunk_bounds (N div k) (N mod k)) [0..<k]))) =
        (\<Union>j<k. (\<lambda>i. (i, i)) ` {f j..<f (Suc j)})"
    by (auto simp: thread_writes_chunk f_def)
  also have "\<dots> = (\<lambda>i. (i, i)) ` (\<Union>j<k. {f j..<f (Suc j)})" by blast
  also have "\<dots> = (\<lambda>i. (i, i)) ` {f 0..<f k}" by (simp only: chunk_union [of f, OF mono])
  also have "\<dots> = (\<lambda>i. (i, i)) ` {0..<N}" by (simp add: fk) (simp add: f_def)
  finally show ?thesis .
qed

lemma set_transform_writes_all:
  "set (transform_writes 0 n 0) = (\<lambda>i. (i, i)) ` {0..<n}"
  by (simp add: transform_writes_def)

lemma measure_transform_eq:
  "measure_transform e data op n =
     Some (\<lparr>elapsed = duration_seconds (clock e n) (clock e (Suc n)),
            final = \<lparr>data_vec = data, result_vec = map op data\<rparr>\<rparr>, Suc (Suc n))"
  by (simp add: measure_transform_def now_def run_writes_cover set_transform_writes_all)

lemma measure_policy_transform_eq:
  "measure_policy_transform e data op policy n =
     Some (\<lparr>elapsed = duration_seconds (clock e n) (clock e (Suc n)),
            final = \<lparr>data_vec = data, result_vec = map op data\<rparr>\<rparr>, Suc (Suc n))"
proof -
  have "set (policy_order policy cs (transform_writes 0 (length data) 0)) =
          (\<lambda>i. (i, i)) ` {0..<length data}" for cs
    by (cases policy) (simp_all add: set_pick_order set_transform_writes_all)
  then show ?thesis
    by (simp add: measure_policy_transform_def now_def run_writes_cover)
qed

lemma measure_custom_parallel_transform_eq:
  "measure_custom_parallel_transform e data op K n =
     Some (\<lparr>elapsed = duration_seconds (clock e n) (clock e (Suc n)),
            final = \<lparr>data_vec = data, result_vec = map op data\<rparr>,
            threads = map (chunk_bounds (length data div nat (coerce_K K))
                                        (length data mod nat (coerce_K K)))
                        [0..<nat (coerce_K K)]\<rparr>, Suc (Suc n))"
proof -
  let ?k = "nat (coerce_K K)"
  have k: "0 < ?k" by (simp add: coerce_K_def)
  have sp: "spawn_loop 0 (coerce_K K) (length data div ?k) (length data mod ?k) 0 [] =
            map (chunk_bounds (length data div ?k) (length data mod ?k)) [0..<?k]"
    using spawn_loop_closed [of 0 "coerce_K K" 0 "length data div ?k" "length data mod ?k" "[]"]
    by (simp add: coerce_K_def)
  have "set (interleave cs (map thread_writes
              (map (chunk_bounds (length data div ?k) (length data mod ?k)) [0..<?k]))) =
        (\<lambda>i. (i, i)) ` {0..<length data}" for cs
    unfolding set_interleave by (rule set_custom_writes [OF k])
  then show ?thesis
    unfolding measure_custom_parallel_transform_def coerce_K_def [symmetric]
    by (simp add: Let_def now_def sp run_writes_cover del: map_map)
qed

lemma chunk_size_closed:
  "snd (chunk_bounds c r j) - fst (chunk_bounds c r j) = c + (if j < r then 1 else 0)"
  by (simp add: chunk_bounds_def min_def)

lemma chunk_sizes_closed:
  "chunk_sizes (map (chunk_bounds c r) [0..<k]) = map (\<lambda>j. c + (if j < r then 1 else 0)) [0..<k]"
  by (simp add: chunk_sizes_def chunk_size_closed)

lemma sum_chunk_sizes:
  "sum_list (map (\<lambda>j. c + (if j < r then 1 else 0)) [0..<k]) = k * c + min k r"
  by (induction k) (auto simp: min_def)

lemma chunk_start_mono:
  "i \<le> j \<Longrightarrow> i * c + min i r \<le> j * c + min j (r::nat)"
  by (intro add_mono mult_le_mono1 min.mono) simp_all

section \<open>The generator and the slow operation\<close>

lemma fill_loop_draws:
  "length data = m + k \<Longrightarrow>
   fst (fill_loop dis [m..<m + k] (data, gen)) = take m data @ draws dis k gen"
proof (induction k arbitrary: m data gen)
  case 0
  then show ?case by simp
next
  case (Suc k)
  obtain x gen' where d: "dis gen = (x, gen')" by (cases "dis gen")
  have upt: "[m..<m + Suc k] = m # [Suc m..<Suc m + k]" by (simp add: upt_conv_Cons)
  have m: "m < length data" using Suc.prems by simp
  have "fst (fill_loop dis [Suc m..<Suc m + k] (data[m := x], gen')) =
          take (Suc m) (data[m := x]) @ draws dis k gen'"
    using Suc.prems by (intro Suc.IH) simp
  also have "take (Suc m) (data[m := x]) = take m data @ [x]"
    using m by (simp add: take_Suc_conv_app_nth)
  finally show ?case unfolding upt by (simp add: d)
qed

lemma generate_data_draws:
  "generate_data lib N seed a b = draws (uniform_real_distribution lib a b) N (mt19937 lib seed)"
  using fill_loop_draws [of "replicate N 0" 0 N "uniform_real_distribution lib a b" "mt19937 lib seed"]
  by (simp add: generate_data_def)

lemma length_draws: "length (draws dis k gen) = k"
  by (induction k arbitrary: gen) (auto split: prod.splits)

lemma length_generate_data: "length (generate_data lib N seed a b) = N"
  by (simp add: generate_data_draws length_draws)

lemma lcg_first_draws: "draws (uniform_real_distribution lcg_library 0 1) (Suc (Suc (Suc 0))) (mt19937 lcg_library 42) =
          [5 / 8, 5 / 16, 3 / 4]"
  by (simp add: lcg_library_def)

lemma slow_op_loop_closed:
  "0 \<le> i \<Longrightarrow> i \<le> 100 \<Longrightarrow>
   slow_op_loop i s w = (s + (\<Sum>j \<in> {i..99}. sin (real_of_int j)), w + nat (100 - i))"
proof (induction i s w rule: slow_op_loop.induct)
  case (1 i s w)
  show ?case
  proof (cases "i < 100")
    case False
    with "1.prems" have "i = 100" by simp
    then show ?thesis by (subst slow_op_loop.simps) simp
  next
    case True
    have split: "{i..99} = insert i {i + 1..99}" using True by auto
    have sum: "(\<Sum>j \<in> {i..99}. sin (real_of_int j)) =
                 sin (real_of_int i) + (\<Sum>j \<in> {i + 1..99}. sin (real_of_int j))"
      unfolding split by (rule sum.insert) simp_all
    have cnt: "Suc w + nat (100 - (i + 1)) = w + nat (100 - i)" using True by simp
    have "slow_op_loop i s w = slow_op_loop (i + 1) (s + sin (real_of_int i)) (Suc w)"
      using True by (subst slow_op_loop.simps) simp
    also have "\<dots> = (s + sin (real_of_int i) + (\<Sum>j \<in> {i + 1..99}. sin (real_of_int j)),
                      Suc w + nat (100 - (i + 1)))"
      using True "1.prems" by (intro "1.IH") simp_all
    finally show ?thesis unfolding sum cnt by (simp add: add.assoc)
  qed
qed

section \<open>The sweep over the thread counts\<close>

lemma duration_seconds_less_DBL_MAX: "duration_seconds start stop < DBL_MAX"
proof -
  have "sint (stop - start) < 2 ^ 63"
    using sint_lt [of "stop - start"] by simp
  then have "real_of_int (sint (stop - start)) < 2 ^ 63"
    by (metis of_int_less_iff of_int_numeral of_int_power)
  moreover have "real_of_int (sint (stop - start)) / 1000000000 \<le> max 0 (real_of_int (sint (stop - start)))"
    by (cases "0 \<le> real_of_int (sint (stop - start))") (simp_all add: field_simps)
  ultimately have "duration_seconds start stop < 2 ^ 63"
    by (simp add: duration_seconds_def max_def split: if_splits)
  also have "(2::real) ^ 63 \<le> 2 ^ 1023" by (rule power_increasing) simp_all
  also have "\<dots> \<le> DBL_MAX"
  proof -
    have "(1::real) \<le> 2 - 1 / 2 ^ 52" by simp
    then have "1 * (2::real) ^ 1023 \<le> (2 - 1 / 2 ^ 52) * 2 ^ 1023"
      by (rule mult_right_mono) simp
    then show ?thesis by (simp only: DBL_MAX_def mult_1)
  qed
  finally show ?thesis .
qed

lemma trial_times_Suc:
  "trial_times e n (Suc m) =
     duration_seconds (clock e n) (clock e (Suc n)) # trial_times e (Suc (Suc n)) m"
proof -
  have "[0..<Suc m] = 0 # map Suc [0..<m]"
    by (simp add: upt_conv_Cons map_Suc_upt del: upt_Suc)
  then show ?thesis
    by (simp add: trial_times_def trial_time_def comp_def del: upt_Suc)
qed

lemma sweep_loop_eq:
  "sweep_loop e data op Ks st =
     Some \<lparr>readings = readings st + 2 * length Ks,
           min_time = fst (track_min (min_time st) (best_K st)
                             (zip Ks (trial_times e (readings st) (length Ks)))),
           best_K = snd (track_min (min_time st) (best_K st)
                           (zip Ks (trial_times e (readings st) (length Ks)))),
           printed = printed st @ map2 Row Ks (trial_times e (readings st) (length Ks))\<rparr>"
proof (induction Ks arbitrary: st)
  case Nil
  show ?case by (simp add: trial_times_def)
next
  case (Cons K Ks)
  show ?case
    by (simp add: measure_custom_parallel_transform_eq Cons.IH trial_times_Suc Let_def)
qed

lemma track_min_keep:
  "\<forall>p \<in> set kts. \<not> snd p < m \<Longrightarrow> track_min m b kts = (m, b)"
  by (induction kts arbitrary: m b) auto

lemma track_min_first_minimum:
  assumes "\<exists>p \<in> set kts. snd p < m"
  shows "\<exists>j < length kts. track_min m b kts = (snd (kts ! j), fst (kts ! j)) \<and>
           snd (kts ! j) < m \<and>
           (\<forall>i < length kts. snd (kts ! j) \<le> snd (kts ! i)) \<and>
           (\<forall>i < j. snd (kts ! j) < snd (kts ! i))"
  using assms
proof (induction kts arbitrary: m b)
  case Nil
  then show ?case by simp
next
  case (Cons p kts)
  obtain K t where p: "p = (K, t)" by (cases p)
  show ?case
  proof (cases "t < m")
    case True
    show ?thesis
    proof (cases "\<exists>q \<in> set kts. snd q < t")
      case False
      then have keep: "track_min t K kts = (t, K)" by (intro track_min_keep) simp
      have "t \<le> snd (kts ! i)" if "i < length kts" for i
        using False nth_mem [OF that] by (auto simp: not_less)
      then have "\<forall>i < length (p # kts). t \<le> snd ((p # kts) ! i)"
        by (auto simp: p nth_Cons split: nat.splits)
      with keep show ?thesis using True
        by (intro exI [of _ 0]) (simp add: p)
    next
      case ex: True
      from Cons.IH [OF ex, of K] obtain j where j: "j < length kts"
        "track_min t K kts = (snd (kts ! j), fst (kts ! j))" "snd (kts ! j) < t"
        "\<forall>i < length kts. snd (kts ! j) \<le> snd (kts ! i)"
        "\<forall>i < j. snd (kts ! j) < snd (kts ! i)" by blast
      have "\<forall>i < length (p # kts). snd (kts ! j) \<le> snd ((p # kts) ! i)"
        using j(3,4) by (auto simp: p nth_Cons split: nat.splits)
      moreover have "\<forall>i < Suc j. snd (kts ! j) < snd ((p # kts) ! i)"
        using j(3,5) by (auto simp: p nth_Cons split: nat.splits)
      ultimately show ?thesis using True j(1,2,3)
        by (intro exI [of _ "Suc j"]) (simp add: p)
    qed
  next
    case False
    with Cons.prems have ex: "\<exists>q \<in> set kts. snd q < m" by (auto simp: p)
    from Cons.IH [OF ex, of b] obtain j where j: "j < length kts"
      "track_min m b kts = (snd (kts ! j), fst (kts ! j))" "snd (kts ! j) < m"
      "\<forall>i < length kts. snd (kts ! j) \<le> snd (kts ! i)"
      "\<forall>i < j. snd (kts ! j) < snd (kts ! i)" by blast
    have lt: "snd (kts ! j) < t" using j(3) False by simp
    have "\<forall>i < length (p # kts). snd (kts ! j) \<le> snd ((p # kts) ! i)"
      using lt j(4) by (auto simp: p nth_Cons split: nat.splits)
    moreover have "\<forall>i < Suc j. snd (kts ! j) < snd ((p # kts) ! i)"
      using lt j(5) by (auto simp: p nth_Cons split: nat.splits)
    ultimately show ?thesis using False j(1,2,3)
      by (intro exI [of _ "Suc j"]) (simp add: p)
  qed
qed

lemma nth_trial_times: "j < m \<Longrightarrow> trial_times e n m ! j = trial_time e n j"
  by (simp add: trial_times_def)

lemma length_trial_times: "length (trial_times e n m) = m"
  by (simp add: trial_times_def)

lemma measure_and_print_eq:
  "measure_and_print_custom_parallel e data op K_values num_cores n =
     Some (Header # map2 Row K_values (trial_times e n (length K_values)) @
             [Best_K (snd (track_min DBL_MAX 1 (zip K_values (trial_times e n (length K_values))))),
              Relation (snd (track_min DBL_MAX 1 (zip K_values (trial_times e n (length K_values)))))
                num_cores
                (if num_cores = 0 then None
                 else Some (real_of_int (snd (track_min DBL_MAX 1
                              (zip K_values (trial_times e n (length K_values))))) / real num_cores))],
           n + 2 * length K_values)"
  by (simp add: measure_and_print_custom_parallel_def sweep_loop_eq)

lemma sweep_best:
  assumes "K_values \<noteq> []"
  shows "\<exists>j < length K_values.
           snd (track_min DBL_MAX 1 (zip K_values (trial_times e n (length K_values)))) = K_values ! j \<and>
           (\<forall>i < length K_values. trial_time e n j \<le> trial_time e n i) \<and>
           (\<forall>i < j. trial_time e n j < trial_time e n i)"
proof -
  let ?L = "length K_values"
  let ?kts = "zip K_values (trial_times e n ?L)"
  have len: "length ?kts = ?L" by (simp add: length_trial_times)
  have nth: "?kts ! i = (K_values ! i, trial_time e n i)" if "i < ?L" for i
    using that by (simp add: length_trial_times nth_trial_times)
  have pos: "0 < ?L" using assms by simp
  then have "0 < length ?kts" unfolding len .
  then have "?kts ! 0 \<in> set ?kts" by (rule nth_mem)
  moreover have "snd (?kts ! 0) < DBL_MAX"
    unfolding nth [OF pos] by (simp add: trial_time_def duration_seconds_less_DBL_MAX)
  ultimately have "\<exists>p \<in> set ?kts. snd p < DBL_MAX" by blast
  from track_min_first_minimum [OF this, of 1] obtain j where j: "j < length ?kts"
    "track_min DBL_MAX 1 ?kts = (snd (?kts ! j), fst (?kts ! j))"
    "\<forall>i < length ?kts. snd (?kts ! j) \<le> snd (?kts ! i)"
    "\<forall>i < j. snd (?kts ! j) < snd (?kts ! i)" by blast
  have jL: "j < ?L" using j(1) len by simp
  have "snd (track_min DBL_MAX 1 ?kts) = K_values ! j" using j(2) nth [OF jL] by simp
  moreover have "\<forall>i < ?L. trial_time e n j \<le> trial_time e n i"
    using j(3) nth jL unfolding len by simp
  moreover have "\<forall>i < j. trial_time e n j < trial_time e n i"
    using j(4) nth jL by simp
  ultimately show ?thesis using jL by blast
qed

lemma sint_diff_in_range:
  fixes a b :: "64 word"
  assumes "- (2 ^ 63) \<le> sint b - sint a" and "sint b - sint a < 2 ^ 63"
  shows "sint (b - a) = sint b - sint a"
proof -
  have "sint (b - a) = signed_take_bit 63 (sint b - sint a)"
    by (simp add: sint_word_ariths)
  also have "\<dots> = sint b - sint a"
    using assms by (intro signed_take_bit_int_eq_self) simp_all
  finally show ?thesis .
qed

lemma duration_seconds_sign:
  assumes "- (2 ^ 63) \<le> sint stop - sint start" and "sint stop - sint start < 2 ^ 63"
  shows "(0 \<le> duration_seconds start stop) = (sint start \<le> sint stop)"
proof -
  have "(0 \<le> duration_seconds start stop) = (0 \<le> real_of_int (sint (stop - start)))"
    unfolding duration_seconds_def by (simp only: zero_le_divide_iff) simp
  also have "\<dots> = (0 \<le> sint (stop - start))" by (simp only: of_int_0_le_iff)
  also have "\<dots> = (sint start \<le> sint stop)"
    unfolding sint_diff_in_range [OF assms] by simp
  finally show ?thesis .
qed

lemma demo_times:
  "trial_times demo_env 0 (Suc (Suc (Suc 0))) = [1 / 20000000, 1 / 50000000, 3 / 100000000]"
  by (simp add: trial_times_def trial_time_def duration_seconds_def demo_env_def)

lemma tie_times:
  "trial_times tie_env 0 (Suc (Suc (Suc 0))) = [1 / 20000000, 1 / 50000000, 1 / 50000000]"
  by (simp add: trial_times_def trial_time_def duration_seconds_def tie_env_def)

section \<open>The claims\<close>

text \<open>
  C1. For every non-empty sample array and every operation, the plain transform, the
  transforms under the policies \<open>seq\<close>, \<open>par\<close> and \<open>par_unseq\<close> and the custom split with
  any \<open>K \<ge> 1\<close> all leave the same output array, which holds the operation applied to
  each element of the sample array; the environment (clock readings, scheduling) and the
  moments \<open>n0\<close>, ..., \<open>n4\<close> of the five runs are arbitrary. The operation is arbitrary,
  so this holds for \<open>fast_op\<close> in particular.
\<close>

theorem strategies_agree:
  assumes "data \<noteq> []" and "1 \<le> K"
  shows "\<exists>t0 t1 t2 t3 t4.
           map_option fst (measure_transform e data op n0) = Some t0 \<and>
           map_option fst (measure_policy_transform e data op seq n1) = Some t1 \<and>
           map_option fst (measure_policy_transform e data op par n2) = Some t2 \<and>
           map_option fst (measure_policy_transform e data op par_unseq n3) = Some t3 \<and>
           map_option fst (measure_custom_parallel_transform e data op K n4) = Some t4 \<and>
           result_vec (final t0) = map op data \<and>
           result_vec (final t1) = result_vec (final t0) \<and>
           result_vec (final t2) = result_vec (final t0) \<and>
           result_vec (final t3) = result_vec (final t0) \<and>
           result_vec (final t4) = result_vec (final t0)"
  by (simp add: measure_transform_eq measure_policy_transform_eq
        measure_custom_parallel_transform_eq)

theorem strategies_agree_witness:
  "[1, 2, 3 :: real] \<noteq> [] \<and> (1::int) \<le> 2 \<and>
   (\<exists>t0 t1 t2 t3 t4.
           map_option fst (measure_transform demo_env [1, 2, 3] fast_op 0) = Some t0 \<and>
           map_option fst (measure_policy_transform demo_env [1, 2, 3] fast_op seq 0) = Some t1 \<and>
           map_option fst (measure_policy_transform demo_env [1, 2, 3] fast_op par 0) = Some t2 \<and>
           map_option fst (measure_policy_transform demo_env [1, 2, 3] fast_op par_unseq 0) = Some t3 \<and>
           map_option fst (measure_custom_parallel_transform demo_env [1, 2, 3] fast_op 2 0) = Some t4 \<and>
           result_vec (final t0) = map fast_op [1, 2, 3] \<and>
           result_vec (final t1) = result_vec (final t0) \<and>
           result_vec (final t2) = result_vec (final t0) \<and>
           result_vec (final t3) = result_vec (final t0) \<and>
           result_vec (final t4) = result_vec (final t0))"
proof (intro conjI)
  show "[1, 2, 3 :: real] \<noteq> []" by simp
  show "(1::int) \<le> 2" by simp
  show "\<exists>t0 t1 t2 t3 t4.
           map_option fst (measure_transform demo_env [1, 2, 3 :: real] fast_op 0) = Some t0 \<and>
           map_option fst (measure_policy_transform demo_env [1, 2, 3] fast_op seq 0) = Some t1 \<and>
           map_option fst (measure_policy_transform demo_env [1, 2, 3] fast_op par 0) = Some t2 \<and>
           map_option fst (measure_policy_transform demo_env [1, 2, 3] fast_op par_unseq 0) = Some t3 \<and>
           map_option fst (measure_custom_parallel_transform demo_env [1, 2, 3] fast_op 2 0) = Some t4 \<and>
           result_vec (final t0) = map fast_op [1, 2, 3] \<and>
           result_vec (final t1) = result_vec (final t0) \<and>
           result_vec (final t2) = result_vec (final t0) \<and>
           result_vec (final t3) = result_vec (final t0) \<and>
           result_vec (final t4) = result_vec (final t0)"
    by (rule strategies_agree) simp_all
qed

text \<open>
  C2. For every array length \<open>N\<close> and every \<open>K \<ge> 1\<close> the custom strategy spawns exactly
  \<open>K\<close> threads, whose chunks are contiguous (the first starts at 0, each next one starts
  where the previous one ends, the last ends at \<open>N\<close>) and do not overlap; chunk \<open>j\<close> has
  \<open>N div K\<close> elements and one more when \<open>j < N mod K\<close>, the sizes sum to \<open>N\<close> and any
  two of them differ by at most one.
\<close>

theorem custom_chunk_partition:
  assumes "1 \<le> K"
  shows "\<exists>tr n'. measure_custom_parallel_transform e data op K n = Some (tr, n') \<and>
           length (threads tr) = nat K \<and>
           fst (threads tr ! 0) = 0 \<and>
           (\<forall>j. Suc j < nat K \<longrightarrow> fst (threads tr ! Suc j) = snd (threads tr ! j)) \<and>
           snd (last (threads tr)) = length data \<and>
           (\<forall>j < nat K. fst (threads tr ! j) \<le> snd (threads tr ! j)) \<and>
           (\<forall>i j. i < j \<and> j < nat K \<longrightarrow> snd (threads tr ! i) \<le> fst (threads tr ! j)) \<and>
           chunk_sizes (threads tr) =
             map (\<lambda>j. length data div nat K + (if j < length data mod nat K then 1 else 0))
               [0..<nat K] \<and>
           sum_list (chunk_sizes (threads tr)) = length data \<and>
           (\<forall>a \<in> set (chunk_sizes (threads tr)). \<forall>b \<in> set (chunk_sizes (threads tr)). a \<le> b + 1)"
proof -
  let ?k = "nat K"
  let ?c = "length data div ?k"
  let ?r = "length data mod ?k"
  let ?ths = "map (chunk_bounds ?c ?r) [0..<?k]"
  let ?tr = "\<lparr>elapsed = duration_seconds (clock e n) (clock e (Suc n)),
             final = \<lparr>data_vec = data, result_vec = map op data\<rparr>, threads = ?ths\<rparr>"
  have k: "0 < ?k" using assms by simp
  have ck: "coerce_K K = K" using assms by (simp add: coerce_K_def)
  have r: "?r < ?k" using k by simp
  have N: "?k * ?c + ?r = length data" by simp
  have thr: "threads ?tr = ?ths" by simp
  have run: "measure_custom_parallel_transform e data op K n = Some (?tr, Suc (Suc n))"
    unfolding measure_custom_parallel_transform_eq ck ..
  have nth: "?ths ! j = chunk_bounds ?c ?r j" if "j < ?k" for j
    using that by simp
  have "last ?ths = chunk_bounds ?c ?r (?k - 1)"
    using k by (simp add: last_map)
  then have lst: "snd (last ?ths) = length data"
    using k r N by (simp add: chunk_bounds_def min_def)
  have disj: "snd (?ths ! i) \<le> fst (?ths ! j)" if "i < j" "j < ?k" for i j
    using that chunk_start_mono [of "Suc i" j ?c ?r] by (simp add: chunk_bounds_def)
  have sizes: "chunk_sizes ?ths = map (\<lambda>j. ?c + (if j < ?r then 1 else 0)) [0..<?k]"
    by (rule chunk_sizes_closed)
  have total: "sum_list (chunk_sizes ?ths) = length data"
    unfolding sizes sum_chunk_sizes using r N by (simp add: min_def)
  have near: "a \<le> b + 1" if "a \<in> set (chunk_sizes ?ths)" "b \<in> set (chunk_sizes ?ths)" for a b
    using that unfolding sizes by (auto split: if_splits)
  show ?thesis
  proof (intro exI conjI)
    show "measure_custom_parallel_transform e data op K n = Some (?tr, Suc (Suc n))"
      by (rule run)
    show "length (threads ?tr) = ?k" by simp
    show "fst (threads ?tr ! 0) = 0" using k by (simp add: chunk_bounds_def)
    show "\<forall>j. Suc j < ?k \<longrightarrow> fst (threads ?tr ! Suc j) = snd (threads ?tr ! j)"
      by (simp add: chunk_bounds_def)
    show "snd (last (threads ?tr)) = length data" unfolding thr by (rule lst)
    show "\<forall>j < ?k. fst (threads ?tr ! j) \<le> snd (threads ?tr ! j)"
      by (simp add: chunk_bounds_def min_def)
    show "\<forall>i j. i < j \<and> j < ?k \<longrightarrow> snd (threads ?tr ! i) \<le> fst (threads ?tr ! j)"
      unfolding thr using disj by blast
    show "chunk_sizes (threads ?tr) = map (\<lambda>j. ?c + (if j < ?r then 1 else 0)) [0..<?k]"
      unfolding thr by (rule sizes)
    show "sum_list (chunk_sizes (threads ?tr)) = length data" unfolding thr by (rule total)
    show "\<forall>a \<in> set (chunk_sizes (threads ?tr)). \<forall>b \<in> set (chunk_sizes (threads ?tr)). a \<le> b + 1"
      unfolding thr using near by blast
  qed
qed

theorem custom_chunk_partition_witness:
  "(1::int) \<le> 3 \<and>
   (\<exists>tr. measure_custom_parallel_transform demo_env [10, 20, 30, 40, 50, 60, 70 :: real] fast_op 3 0
            = Some (tr, 2) \<and>
         threads tr = [(0, 3), (3, 5), (5, 7)] \<and>
         chunk_sizes (threads tr) = [3, 2, 2] \<and>
         sum_list (chunk_sizes (threads tr)) = 7)"
proof -
  obtain tr n' where
    run: "measure_custom_parallel_transform demo_env [10, 20, 30, 40, 50, 60, 70 :: real] fast_op 3 0
            = Some (tr, n')"
    and len: "length (threads tr) = nat 3"
    and first: "fst (threads tr ! 0) = 0"
    and contig: "\<forall>j. Suc j < nat 3 \<longrightarrow> fst (threads tr ! Suc j) = snd (threads tr ! j)"
    and sizes: "chunk_sizes (threads tr) =
             map (\<lambda>j. length [10, 20, 30, 40, 50, 60, 70 :: real] div nat 3 +
                      (if j < length [10, 20, 30, 40, 50, 60, 70 :: real] mod nat 3 then 1 else 0))
               [0..<nat 3]"
    and total: "sum_list (chunk_sizes (threads tr)) = length [10, 20, 30, 40, 50, 60, 70 :: real]"
    using custom_chunk_partition [of 3 demo_env "[10, 20, 30, 40, 50, 60, 70 :: real]" fast_op 0]
    by auto
  have n': "n' = 2" using run by (simp add: measure_custom_parallel_transform_eq)
  have "threads tr = [(0, 3), (3, 5), (5, 7)]"
    using run by (simp add: measure_custom_parallel_transform_eq coerce_K_def chunk_bounds_def upt_rec) auto
  moreover have "chunk_sizes (threads tr) = [3, 2, 2]"
    using sizes by (simp add: upt_rec)
  ultimately show ?thesis using run total n' by simp
qed

text \<open>
  C3. For every \<open>K \<le> 0\<close> the custom strategy does exactly what it does for \<open>K = 1\<close>: one
  thread, whose chunk is the whole array, and the same output array.
\<close>

theorem nonpositive_K_as_one:
  assumes "K \<le> 0"
  shows "measure_custom_parallel_transform e data op K n =
           measure_custom_parallel_transform e data op 1 n \<and>
         (\<exists>tr n'. measure_custom_parallel_transform e data op K n = Some (tr, n') \<and>
            threads tr = [(0, length data)] \<and>
            result_vec (final tr) = map op data)"
proof -
  have "coerce_K K = 1" "coerce_K 1 = 1" using assms by (simp_all add: coerce_K_def)
  then show ?thesis
    by (simp add: measure_custom_parallel_transform_eq chunk_bounds_def)
qed

theorem nonpositive_K_as_one_witness:
  "(-4::int) \<le> 0 \<and>
   measure_custom_parallel_transform demo_env [10, 20, 30 :: real] slow_op (-4) 0 =
     measure_custom_parallel_transform demo_env [10, 20, 30] slow_op 1 0 \<and>
   (\<exists>tr n'. measure_custom_parallel_transform demo_env [10, 20, 30 :: real] slow_op (-4) 0 = Some (tr, n') \<and>
      threads tr = [(0, length [10, 20, 30 :: real])] \<and>
      result_vec (final tr) = map slow_op [10, 20, 30])"
proof -
  have h: "(-4::int) \<le> 0" by simp
  show ?thesis
    using h nonpositive_K_as_one [OF h, of demo_env "[10, 20, 30 :: real]" slow_op 0]
    by (intro conjI) (rule h, blast, blast)
qed

text \<open>
  C4. Two calls of \<open>generate_data\<close> with the same count, seed and range bounds return the
  same sequence: the sequence holds the first \<open>N\<close> values that the distribution draws
  from an engine constructed from the seed, and nothing else enters it. Its length is
  the count, and it is empty when the count is zero.
\<close>

theorem generate_data_reproducible:
  assumes "N' = N" and "seed' = seed" and "dis_start' = dis_start" and "dis_end' = dis_end"
  shows "generate_data lib N' seed' dis_start' dis_end' = generate_data lib N seed dis_start dis_end \<and>
         generate_data lib N seed dis_start dis_end =
           draws (uniform_real_distribution lib dis_start dis_end) N (mt19937 lib seed) \<and>
         length (generate_data lib N seed dis_start dis_end) = N \<and>
         generate_data lib 0 seed dis_start dis_end = []"
  using assms by (simp add: generate_data_draws length_draws)

theorem generate_data_reproducible_witness:
  "generate_data lcg_library 3 42 0 1 = generate_data lcg_library 3 42 0 1 \<and>
   generate_data lcg_library 3 42 0 1 = [5 / 8, 5 / 16, 3 / 4] \<and>
   length (generate_data lcg_library 3 42 0 1) = 3 \<and>
   generate_data lcg_library 0 42 0 1 = []"
proof -
  have three: "(3::nat) = Suc (Suc (Suc 0))" by simp
  have d: "draws (uniform_real_distribution lcg_library 0 1) 3 (mt19937 lcg_library 42) =
          [5 / 8, 5 / 16, 3 / 4]"
    unfolding three by (rule lcg_first_draws)
  have g: "generate_data lcg_library 3 42 0 1 = generate_data lcg_library 3 42 0 1 \<and>
         generate_data lcg_library 3 42 0 1 =
           draws (uniform_real_distribution lcg_library 0 1) 3 (mt19937 lcg_library 42) \<and>
         length (generate_data lcg_library 3 42 0 1) = 3 \<and>
         generate_data lcg_library 0 42 0 1 = []"
    by (rule generate_data_reproducible) (rule refl)+
  show ?thesis using g unfolding d by blast
qed

text \<open>
  C5. For every non-empty list of thread-count candidates the reporting layer prints,
  after the header, one row per candidate in the order of the list, each with the time
  measured for that candidate, and the best \<open>K\<close> it prints is a member of the list whose
  measured time is the least of all the measured times.
\<close>

theorem sweep_reports_minimum:
  assumes "K_values \<noteq> []"
  shows "\<exists>b r j. measure_and_print_custom_parallel e data op K_values num_cores n =
             Some (Header # map2 Row K_values (trial_times e n (length K_values)) @
                     [Best_K b, Relation b num_cores r],
                   n + 2 * length K_values) \<and>
           j < length K_values \<and> K_values ! j = b \<and> b \<in> set K_values \<and>
           (\<forall>i < length K_values. trial_time e n j \<le> trial_time e n i)"
proof -
  from sweep_best [OF assms, of e n] obtain j where j: "j < length K_values"
    "snd (track_min DBL_MAX 1 (zip K_values (trial_times e n (length K_values)))) = K_values ! j"
    "\<forall>i < length K_values. trial_time e n j \<le> trial_time e n i" by blast
  have "K_values ! j \<in> set K_values" using j(1) by simp
  then show ?thesis
    unfolding measure_and_print_eq j(2) using j(1,3) by blast
qed

theorem sweep_reports_minimum_witness:
  "[4, 2, 0] \<noteq> ([] :: int list) \<and>
   (\<exists>b r j. measure_and_print_custom_parallel demo_env [1, 2, 3 :: real] fast_op [4, 2, 0] 8 0 =
             Some (Header # map2 Row [4, 2, 0] (trial_times demo_env 0 (length [4, 2, 0 :: int])) @
                     [Best_K b, Relation b 8 r],
                   0 + 2 * length [4, 2, 0 :: int]) \<and>
           j < length [4, 2, 0 :: int] \<and> [4, 2, 0] ! j = b \<and> b \<in> set [4, 2, 0] \<and>
           (\<forall>i < length [4, 2, 0 :: int]. trial_time demo_env 0 j \<le> trial_time demo_env 0 i)) \<and>
   measure_and_print_custom_parallel demo_env [1, 2, 3 :: real] fast_op [4, 2, 0] 8 0 =
     Some ([Header, Row 4 (1 / 20000000), Row 2 (1 / 50000000), Row 0 (3 / 100000000),
            Best_K 2, Relation 2 8 (Some (1 / 4))], 6)"
proof (intro conjI)
  show ne: "[4, 2, 0] \<noteq> ([] :: int list)" by simp
  show "\<exists>b r j. measure_and_print_custom_parallel demo_env [1, 2, 3 :: real] fast_op [4, 2, 0] 8 0 =
             Some (Header # map2 Row [4, 2, 0] (trial_times demo_env 0 (length [4, 2, 0 :: int])) @
                     [Best_K b, Relation b 8 r],
                   0 + 2 * length [4, 2, 0 :: int]) \<and>
           j < length [4, 2, 0 :: int] \<and> [4, 2, 0] ! j = b \<and> b \<in> set [4, 2, 0] \<and>
           (\<forall>i < length [4, 2, 0 :: int]. trial_time demo_env 0 j \<le> trial_time demo_env 0 i)"
    by (rule sweep_reports_minimum [OF ne])
  show "measure_and_print_custom_parallel demo_env [1, 2, 3 :: real] fast_op [4, 2, 0] 8 0 =
     Some ([Header, Row 4 (1 / 20000000), Row 2 (1 / 50000000), Row 0 (3 / 100000000),
            Best_K 2, Relation 2 8 (Some (1 / 4))], 6)"
    by (simp add: measure_and_print_eq demo_times DBL_MAX_def)
qed

text \<open>
  C6. The end-to-end scenario: 10000 values generated with seed 42 in the range from 0 to
  1, the fast operation, the custom strategy with \<open>K = 4\<close>. Four threads are spawned,
  each chunk has 2500 elements, the output array has 10000 elements and each of them is
  the corresponding input element plus 1. This holds whatever values the library's
  generator draws.
\<close>

theorem end_to_end_scenario:
  fixes lib :: "('g, real) random_library"
  shows "\<exists>tr n'. measure_custom_parallel_transform e (generate_data lib 10000 42 0 1) fast_op 4 n
             = Some (tr, n') \<and>
           length (generate_data lib 10000 42 0 1) = 10000 \<and>
           length (threads tr) = 4 \<and>
           threads tr = [(0, 2500), (2500, 5000), (5000, 7500), (7500, 10000)] \<and>
           chunk_sizes (threads tr) = [2500, 2500, 2500, 2500] \<and>
           length (result_vec (final tr)) = 10000 \<and>
           result_vec (final tr) = map (\<lambda>x. x + 1) (generate_data lib 10000 42 0 1)"
proof -
  have f: "fast_op = (\<lambda>x. x + 1)" by (simp add: fun_eq_iff fast_op_def)
  have u: "[0..<4] = [0, 1, 2, 3]" by (simp add: upt_rec)
  show ?thesis
    by (simp add: measure_custom_parallel_transform_eq length_generate_data coerce_K_def
          u chunk_bounds_def chunk_sizes_def f)
qed

text \<open>
  C7, as amended. The elapsed time each of the three measuring functions returns is the
  difference of two successive readings of the clock, in seconds, the difference of the
  two 64-bit tick counts being the one the machine computes. Whenever the difference of
  the two readings fits the signed 64-bit tick count (it is at least \<open>- 2 ^ 63\<close> and less
  than \<open>2 ^ 63\<close>), the elapsed time is non-negative if and only if the second reading is
  not earlier than the first: it is non-negative when the clock has advanced or stood
  still, and negative when the clock has stepped back. The source reads
  \<open>std::chrono::high_resolution_clock\<close>, which need not be monotonic.
\<close>

theorem elapsed_sign_follows_clock:
  "\<exists>t0 t1 t2 n0 n1 n2.
     measure_transform e data op n = Some (t0, n0) \<and>
     measure_policy_transform e data op policy n = Some (t1, n1) \<and>
     measure_custom_parallel_transform e data op K n = Some (t2, n2) \<and>
     elapsed t0 = duration_seconds (clock e n) (clock e (Suc n)) \<and>
     elapsed t1 = duration_seconds (clock e n) (clock e (Suc n)) \<and>
     elapsed t2 = duration_seconds (clock e n) (clock e (Suc n)) \<and>
     (- (2 ^ 63) \<le> sint (clock e (Suc n)) - sint (clock e n) \<and>
      sint (clock e (Suc n)) - sint (clock e n) < 2 ^ 63 \<longrightarrow>
        (0 \<le> elapsed t0) = (sint (clock e n) \<le> sint (clock e (Suc n))) \<and>
        (0 \<le> elapsed t1) = (sint (clock e n) \<le> sint (clock e (Suc n))) \<and>
        (0 \<le> elapsed t2) = (sint (clock e n) \<le> sint (clock e (Suc n))))"
  by (simp add: measure_transform_eq measure_policy_transform_eq
        measure_custom_parallel_transform_eq duration_seconds_sign)

theorem elapsed_sign_follows_clock_witness:
  "- (2 ^ 63) \<le> sint (clock demo_env (Suc 0)) - sint (clock demo_env 0) \<and>
   sint (clock demo_env (Suc 0)) - sint (clock demo_env 0) < 2 ^ 63 \<and>
   sint (clock demo_env 0) \<le> sint (clock demo_env (Suc 0)) \<and>
   (\<exists>t0 t1 t2 n0 n1 n2.
      measure_transform demo_env [1, 2, 3 :: real] fast_op 0 = Some (t0, n0) \<and>
      measure_policy_transform demo_env [1, 2, 3] fast_op par 0 = Some (t1, n1) \<and>
      measure_custom_parallel_transform demo_env [1, 2, 3] fast_op 2 0 = Some (t2, n2) \<and>
      elapsed t0 = 1 / 20000000 \<and> elapsed t1 = 1 / 20000000 \<and> elapsed t2 = 1 / 20000000 \<and>
      0 \<le> elapsed t0 \<and> 0 \<le> elapsed t1 \<and> 0 \<le> elapsed t2) \<and>
   - (2 ^ 63) \<le> sint (clock stepped_back_env (Suc 0)) - sint (clock stepped_back_env 0) \<and>
   sint (clock stepped_back_env (Suc 0)) - sint (clock stepped_back_env 0) < 2 ^ 63 \<and>
   \<not> sint (clock stepped_back_env 0) \<le> sint (clock stepped_back_env (Suc 0)) \<and>
   (\<exists>t0 t1 t2 n0 n1 n2.
      measure_transform stepped_back_env [1, 2, 3 :: real] fast_op 0 = Some (t0, n0) \<and>
      measure_policy_transform stepped_back_env [1, 2, 3] fast_op par 0 = Some (t1, n1) \<and>
      measure_custom_parallel_transform stepped_back_env [1, 2, 3] fast_op 2 0 = Some (t2, n2) \<and>
      elapsed t0 < 0 \<and> elapsed t1 < 0 \<and> elapsed t2 < 0)"
proof (intro conjI)
  show a1: "- (2 ^ 63) \<le> sint (clock demo_env (Suc 0)) - sint (clock demo_env 0)"
    by (simp add: demo_env_def)
  show a2: "sint (clock demo_env (Suc 0)) - sint (clock demo_env 0) < 2 ^ 63"
    by (simp add: demo_env_def)
  show a3: "sint (clock demo_env 0) \<le> sint (clock demo_env (Suc 0))"
    by (simp add: demo_env_def)
  have d: "duration_seconds (clock demo_env 0) (clock demo_env (Suc 0)) = 1 / 20000000"
    by (simp add: demo_env_def duration_seconds_def)
  show "\<exists>t0 t1 t2 n0 n1 n2.
      measure_transform demo_env [1, 2, 3 :: real] fast_op 0 = Some (t0, n0) \<and>
      measure_policy_transform demo_env [1, 2, 3] fast_op par 0 = Some (t1, n1) \<and>
      measure_custom_parallel_transform demo_env [1, 2, 3] fast_op 2 0 = Some (t2, n2) \<and>
      elapsed t0 = 1 / 20000000 \<and> elapsed t1 = 1 / 20000000 \<and> elapsed t2 = 1 / 20000000 \<and>
      0 \<le> elapsed t0 \<and> 0 \<le> elapsed t1 \<and> 0 \<le> elapsed t2"
    using elapsed_sign_follows_clock [of demo_env "[1, 2, 3 :: real]" fast_op 0 par 2] a1 a2 a3
    unfolding d by blast
  show b1: "- (2 ^ 63) \<le> sint (clock stepped_back_env (Suc 0)) - sint (clock stepped_back_env 0)"
    by (simp add: stepped_back_env_def)
  show b2: "sint (clock stepped_back_env (Suc 0)) - sint (clock stepped_back_env 0) < 2 ^ 63"
    by (simp add: stepped_back_env_def)
  show b3: "\<not> sint (clock stepped_back_env 0) \<le> sint (clock stepped_back_env (Suc 0))"
    by (simp add: stepped_back_env_def)
  show "\<exists>t0 t1 t2 n0 n1 n2.
      measure_transform stepped_back_env [1, 2, 3 :: real] fast_op 0 = Some (t0, n0) \<and>
      measure_policy_transform stepped_back_env [1, 2, 3] fast_op par 0 = Some (t1, n1) \<and>
      measure_custom_parallel_transform stepped_back_env [1, 2, 3] fast_op 2 0 = Some (t2, n2) \<and>
      elapsed t0 < 0 \<and> elapsed t1 < 0 \<and> elapsed t2 < 0"
    using elapsed_sign_follows_clock [of stepped_back_env "[1, 2, 3 :: real]" fast_op 0 par 2] b1 b2 b3
    unfolding not_le [symmetric] by blast
qed

text \<open>
  The clock reads 5 and then 3: every measuring function returns minus two nanoseconds.
\<close>

theorem elapsed_negative_counterexample:
  "measure_transform stepped_back_env [0] fast_op 0 =
     Some (\<lparr>elapsed = - (2 / 1000000000),
            final = \<lparr>data_vec = [0], result_vec = [1]\<rparr>\<rparr>, 2) \<and>
   measure_policy_transform stepped_back_env [0] fast_op par 0 =
     Some (\<lparr>elapsed = - (2 / 1000000000),
            final = \<lparr>data_vec = [0], result_vec = [1]\<rparr>\<rparr>, 2) \<and>
   measure_custom_parallel_transform stepped_back_env [0] fast_op 1 0 =
     Some (\<lparr>elapsed = - (2 / 1000000000),
            final = \<lparr>data_vec = [0], result_vec = [1]\<rparr>, threads = [(0, 1)]\<rparr>, 2) \<and>
   \<not> (0::real) \<le> - (2 / 1000000000)"
  by (simp add: measure_transform_eq measure_policy_transform_eq
        measure_custom_parallel_transform_eq stepped_back_env_def duration_seconds_def
        fast_op_def coerce_K_def chunk_bounds_def numeral_2_eq_2)

text \<open>
  C8. For every input \<open>x\<close> the slow operation returns the sum of \<open>sin i\<close> over the integers
  \<open>i\<close> from 0 to 99, plus \<open>x\<close>, and the body of its loop runs 100 times whatever \<open>x\<close> is.
\<close>

theorem slow_op_value_and_work:
  "slow_op x = (\<Sum>i \<in> {0..99}. sin (real_of_int i)) + x \<and> snd (slow_op_run x) = 100"
  by (simp add: slow_op_def slow_op_run_def slow_op_loop_closed)

text \<open>
  C9. No strategy changes the sample array: when a measuring function returns, the
  vector \<open>data\<close> holds what it held at the call, for every operation, policy and thread
  count, and the result vector the call created has the length of the sample array.
\<close>

theorem sample_array_not_mutated:
  "\<exists>t0 t1 t2 n0 n1 n2.
     measure_transform e data op n = Some (t0, n0) \<and>
     measure_policy_transform e data op policy n = Some (t1, n1) \<and>
     measure_custom_parallel_transform e data op K n = Some (t2, n2) \<and>
     data_vec (final t0) = data \<and> length (result_vec (final t0)) = length data \<and>
     data_vec (final t1) = data \<and> length (result_vec (final t1)) = length data \<and>
     data_vec (final t2) = data \<and> length (result_vec (final t2)) = length data"
  by (simp add: measure_transform_eq measure_policy_transform_eq
        measure_custom_parallel_transform_eq)

text \<open>
  C10. For a non-empty candidate list the best \<open>K\<close> printed is the candidate at the first
  position whose time is minimal: every earlier candidate has a strictly greater time.
  For the empty list the output is the header, the line \<open>Best K: 1\<close> and the relation
  line, and the clock has not been read: no trial has run.
\<close>

theorem sweep_ties_and_empty:
  "(K_values \<noteq> [] \<longrightarrow>
      (\<exists>b r j. measure_and_print_custom_parallel e data op K_values num_cores n =
             Some (Header # map2 Row K_values (trial_times e n (length K_values)) @
                     [Best_K b, Relation b num_cores r],
                   n + 2 * length K_values) \<and>
           j < length K_values \<and> b = K_values ! j \<and>
           (\<forall>i < length K_values. trial_time e n j \<le> trial_time e n i) \<and>
           (\<forall>i < j. trial_time e n j < trial_time e n i))) \<and>
   measure_and_print_custom_parallel e data op [] num_cores n =
     Some ([Header, Best_K 1,
            Relation 1 num_cores (if num_cores = 0 then None else Some (1 / real num_cores))], n)"
proof (intro conjI impI)
  assume ne: "K_values \<noteq> []"
  from sweep_best [OF ne, of e n] obtain j where j: "j < length K_values"
    "snd (track_min DBL_MAX 1 (zip K_values (trial_times e n (length K_values)))) = K_values ! j"
    "\<forall>i < length K_values. trial_time e n j \<le> trial_time e n i"
    "\<forall>i < j. trial_time e n j < trial_time e n i" by blast
  show "\<exists>b r j. measure_and_print_custom_parallel e data op K_values num_cores n =
             Some (Header # map2 Row K_values (trial_times e n (length K_values)) @
                     [Best_K b, Relation b num_cores r],
                   n + 2 * length K_values) \<and>
           j < length K_values \<and> b = K_values ! j \<and>
           (\<forall>i < length K_values. trial_time e n j \<le> trial_time e n i) \<and>
           (\<forall>i < j. trial_time e n j < trial_time e n i)"
    unfolding measure_and_print_eq j(2) using j(1,3,4) by blast
next
  show "measure_and_print_custom_parallel e data op [] num_cores n =
     Some ([Header, Best_K 1,
            Relation 1 num_cores (if num_cores = 0 then None else Some (1 / real num_cores))], n)"
    by (simp add: measure_and_print_eq trial_times_def)
qed

theorem sweep_ties_and_empty_witness:
  "[4, 2, 8] \<noteq> ([] :: int list) \<and>
   (\<exists>b r j. measure_and_print_custom_parallel tie_env [1, 2, 3 :: real] fast_op [4, 2, 8] 8 0 =
             Some (Header # map2 Row [4, 2, 8] (trial_times tie_env 0 (length [4, 2, 8 :: int])) @
                     [Best_K b, Relation b 8 r],
                   0 + 2 * length [4, 2, 8 :: int]) \<and>
           j < length [4, 2, 8 :: int] \<and> b = [4, 2, 8] ! j \<and>
           (\<forall>i < length [4, 2, 8 :: int]. trial_time tie_env 0 j \<le> trial_time tie_env 0 i) \<and>
           (\<forall>i < j. trial_time tie_env 0 j < trial_time tie_env 0 i)) \<and>
   measure_and_print_custom_parallel tie_env [1, 2, 3 :: real] fast_op [4, 2, 8] 8 0 =
     Some ([Header, Row 4 (1 / 20000000), Row 2 (1 / 50000000), Row 8 (1 / 50000000),
            Best_K 2, Relation 2 8 (Some (1 / 4))], 6) \<and>
   measure_and_print_custom_parallel tie_env [1, 2, 3 :: real] fast_op [] 8 0 =
     Some ([Header, Best_K 1, Relation 1 8 (Some (1 / 8))], 0)"
proof (intro conjI)
  show ne: "[4, 2, 8] \<noteq> ([] :: int list)" by simp
  show "\<exists>b r j. measure_and_print_custom_parallel tie_env [1, 2, 3 :: real] fast_op [4, 2, 8] 8 0 =
             Some (Header # map2 Row [4, 2, 8] (trial_times tie_env 0 (length [4, 2, 8 :: int])) @
                     [Best_K b, Relation b 8 r],
                   0 + 2 * length [4, 2, 8 :: int]) \<and>
           j < length [4, 2, 8 :: int] \<and> b = [4, 2, 8] ! j \<and>
           (\<forall>i < length [4, 2, 8 :: int]. trial_time tie_env 0 j \<le> trial_time tie_env 0 i) \<and>
           (\<forall>i < j. trial_time tie_env 0 j < trial_time tie_env 0 i)"
    using sweep_ties_and_empty [of "[4, 2, 8]" tie_env "[1, 2, 3 :: real]" fast_op 8 0] ne
    by (elim conjE impE) assumption
  show "measure_and_print_custom_parallel tie_env [1, 2, 3 :: real] fast_op [4, 2, 8] 8 0 =
     Some ([Header, Row 4 (1 / 20000000), Row 2 (1 / 50000000), Row 8 (1 / 50000000),
            Best_K 2, Relation 2 8 (Some (1 / 4))], 6)"
    by (simp add: measure_and_print_eq tie_times DBL_MAX_def)
  show "measure_and_print_custom_parallel tie_env [1, 2, 3 :: real] fast_op [] 8 0 =
     Some ([Header, Best_K 1, Relation 1 8 (Some (1 / 8))], 0)"
    using sweep_ties_and_empty [of "[4, 2, 8]" tie_env "[1, 2, 3 :: real]" fast_op 8 0]
    by simp
qed

end
